theory Spec2Isabelle
  imports Complex_Main
begin

section \<open>The audit engine of yarn.build\<close>

text \<open>
  The plugin decides which workspaces of a yarn project have to be rebuilt. The
  development embeds its five classes: \<open>FreshnessDetector\<close> (the scan of a workspace's
  source folder), \<open>FreshnessCatalog\<close> (the cache of the scan's verdicts),
  \<open>WorkspaceAuditor\<close> (the depth-first walk over the dependencies, which builds a tree of
  \<open>WorkspaceReport\<close>s), \<open>ProjectAuditor\<close> (one audit per targeted workspace) and
  \<open>ReportInspector\<close> (the build instructions read off the reports).

  \<open>Workspace\<close> and \<open>Descriptor\<close> are classes of \<open>@yarnpkg/core\<close>. The code compares
  both by reference (\<open>path.includes(descriptor)\<close>, \<open>Map<Workspace, _>\<close>), so they are the
  type variables \<open>'w\<close> and \<open>'d\<close>, whose equality is the identity of the object, and
  what the code reads from them is a field of the record \<open>World\<close> below.
\<close>

subsection \<open>The file system and the clock\<close>

datatype error = FilesystemError | InstallStateError

text \<open>
  What \<open>xfs.statPromise\<close> and \<open>xfs.readdirPromise\<close> find at a path: a file with its
  \<open>mtimeMs\<close>, a directory with its entries, something that is neither
  (\<open>Special\<close>), a directory that cannot be listed (\<open>Locked\<close>: \<open>stat\<close> answers,
  \<open>readdir\<close> raises), or a path at which both raise (\<open>Faulty\<close>, also a path that does
  not exist). Timestamps are JavaScript numbers, modelled as reals.
\<close>

datatype fsnode =
    File real
  | Directory "fsnode list"
  | Special
  | Locked
  | Faulty

fun readdirPromise :: "fsnode \<Rightarrow> error + fsnode list" where
  "readdirPromise (Directory files) = Inr files"
| "readdirPromise _ = Inl FilesystemError"

fun statPromise :: "fsnode \<Rightarrow> error + fsnode" where
  "statPromise Faulty = Inl FilesystemError"
| "statPromise node = Inr node"

fun isFile :: "fsnode \<Rightarrow> bool" where
  "isFile (File _) = True"
| "isFile _ = False"

fun isDirectory :: "fsnode \<Rightarrow> bool" where
  "isDirectory (Directory _) = True"
| "isDirectory Locked = True"
| "isDirectory _ = False"

fun mtimeMs :: "fsnode \<Rightarrow> real" where
  "mtimeMs (File t) = t"
| "mtimeMs _ = 0"

text \<open>
  The log of the previous run (\<open>RunLog\<close>, of the supervisor): of an entry only the
  optional field \<open>lastModified\<close> is read, so an entry is that field.
\<close>

type_synonym RunLog = "string \<rightharpoonup> real option"

text \<open>
  Everything the engine reads from outside. The project model: \<open>workspaces\<close> is
  \<open>project.workspaces\<close>, \<open>dependencies_values w\<close> is \<open>w.dependencies.values()\<close> in
  iteration order, \<open>tryWorkspaceByDescriptor\<close> is the project's method of that name
  (\<open>None\<close> for a dependency that is no workspace of the project). The surroundings:
  \<open>sourceDirectory k w\<close> is what lies at \<open>join(w.cwd, "source")\<close> and \<open>now k\<close> is
  what \<open>new Date().getTime()\<close> answers when \<open>k\<close> scans have been made so far in the
  run; so neither the files nor the clock need to stand still during a run.
\<close>

record ('w, 'd) World =
  workspaces :: "'w list"
  topLevelWorkspace :: "'w"
  relativeCwd :: "'w \<Rightarrow> string"
  dependencies_values :: "'w \<Rightarrow> 'd list"
  tryWorkspaceByDescriptor :: "'d \<Rightarrow> 'w option"
  sourceDirectory :: "nat \<Rightarrow> 'w \<Rightarrow> fsnode"
  now :: "nat \<Rightarrow> real"
  configuration :: "RunLog"
  restoreInstallState :: "error option"

subsection \<open>FreshnessDetector\<close>

text \<open>
  \<open>_getLastModifiedForFolder\<close>: the loop over the entries of a folder carries the
  running maximum \<open>lastModified\<close>, which starts at 0. An entry that is neither a file nor
  a directory is passed over; a \<open>readdir\<close> or \<open>stat\<close> that raises ends the scan.
\<close>

lemma readdirPromise_size:
  "readdirPromise folder = Inr files \<Longrightarrow> size_list size files < size folder"
  by (cases folder) simp_all

function getLastModifiedForFolder :: "fsnode \<Rightarrow> error + real"
  and scanFiles :: "fsnode list \<Rightarrow> real \<Rightarrow> error + real" where
  "getLastModifiedForFolder folder =
     (case readdirPromise folder of
        Inl e \<Rightarrow> Inl e
      | Inr files \<Rightarrow> scanFiles files 0)"
| "scanFiles [] lastModified = Inr lastModified"
| "scanFiles (file # files) lastModified =
     (case statPromise file of
        Inl e \<Rightarrow> Inl e
      | Inr stat \<Rightarrow>
          (let lastModified =
                 (if isFile stat \<and> mtimeMs stat > lastModified then mtimeMs stat
                  else lastModified)
           in if isDirectory stat then
                (case getLastModifiedForFolder file of
                   Inl e \<Rightarrow> Inl e
                 | Inr folderLastModified \<Rightarrow>
                     scanFiles files
                       (if folderLastModified > lastModified then folderLastModified
                        else lastModified))
              else scanFiles files lastModified))"
  by pat_completeness auto

termination
  by (relation "measure (\<lambda>x. case x of Inl folder \<Rightarrow> size folder
                                   | Inr (files, _) \<Rightarrow> size_list size files)")
     (auto dest: readdirPromise_size)

definition FreshnessDetector_isFresh :: "fsnode \<Rightarrow> real \<Rightarrow> error + bool" where
  "FreshnessDetector_isFresh sourceDir lastModified =
     (case getLastModifiedForFolder sourceDir of
        Inl e \<Rightarrow> Inl e
      | Inr timeSource \<Rightarrow>
          (let changeAge = lastModified - timeSource in Inr (changeAge = 0)))"

subsection \<open>FreshnessCatalog\<close>

text \<open>
  The two fields of the class, and \<open>scanned\<close>: the workspaces for which a
  \<open>FreshnessDetector\<close> has been run, in the order of the runs. The class has no such
  field; it is kept here so that the number of scans can be spoken about.
\<close>

record 'w FreshnessCatalog =
  catalog :: "'w \<rightharpoonup> bool"
  previousState :: "RunLog option"
  scanned :: "'w list"

definition new_FreshnessCatalog :: "'w FreshnessCatalog" where
  "new_FreshnessCatalog = \<lparr> catalog = Map.empty, previousState = None, scanned = [] \<rparr>"

definition loadPreviousState :: "RunLog \<Rightarrow> 'w FreshnessCatalog \<Rightarrow> 'w FreshnessCatalog" where
  "loadPreviousState runLog c = c\<lparr> previousState := Some runLog \<rparr>"

text \<open>Every method returns its value together with the catalog it leaves behind.\<close>

definition wasChecked :: "'w \<Rightarrow> 'w FreshnessCatalog \<Rightarrow> bool \<times> 'w FreshnessCatalog" where
  "wasChecked workspace c = (catalog c workspace \<noteq> None, c)"

text \<open>
  \<open>baseline\<close> is the value \<open>isFresh\<close> gives its variable \<open>lastModified\<close> before the scan:
  the time recorded in the log of the previous run under the key of the workspace, and
  the reading of the clock when there is no log, no entry or no time in the entry.
\<close>

definition baseline :: "('w, 'd) World \<Rightarrow> 'w \<Rightarrow> 'w FreshnessCatalog \<Rightarrow> real" where
  "baseline world workspace c =
     (let time = now world (length (scanned c));
          yarnBuildKey = relativeCwd world workspace @ ''#build''
      in case previousState c of
           None \<Rightarrow> time
         | Some runLog \<Rightarrow>
             (case runLog yarnBuildKey of
                None \<Rightarrow> time
              | Some entry \<Rightarrow> (case entry of None \<Rightarrow> time | Some t \<Rightarrow> t)))"

text \<open>
  \<open>isFresh\<close> is an \<open>async\<close> method with one \<open>await\<close>, on the scan. \<open>isFresh_begin\<close> is
  the method up to that point: the look into the cache and, when the workspace is not in
  it, the baseline and the start of the scan, which is the moment the scan is counted.
  What the call then waits for is a \<open>pending\<close>: the cached value, or the scan of the
  workspace against the baseline, which sees the files as they are at the index of the
  scan. \<open>isFresh_finish\<close> is the method from the \<open>await\<close> on: the scan's answer is written
  to the catalog as it is at that moment and returned, or the scan raises.

  \<open>FreshnessCatalog_isFresh\<close> is a call that nothing else interrupts: the caller awaits
  it, and no other call is made on the catalog meanwhile.
\<close>

datatype 'w pending = Cached bool | Scanning 'w real nat

definition isFresh_begin ::
  "('w, 'd) World \<Rightarrow> 'w \<Rightarrow> 'w FreshnessCatalog \<Rightarrow> 'w pending \<times> 'w FreshnessCatalog" where
  "isFresh_begin world workspace c =
     (if fst (wasChecked workspace c) then (Cached (the (catalog c workspace)), c)
      else (Scanning workspace (baseline world workspace c) (length (scanned c)),
            c\<lparr> scanned := scanned c @ [workspace] \<rparr>))"

definition isFresh_finish ::
  "('w, 'd) World \<Rightarrow> 'w pending \<Rightarrow> 'w FreshnessCatalog \<Rightarrow> error + (bool \<times> 'w FreshnessCatalog)" where
  "isFresh_finish world p c =
     (case p of
        Cached cached \<Rightarrow> Inr (cached, c)
      | Scanning workspace lastModified k \<Rightarrow>
          (case FreshnessDetector_isFresh (sourceDirectory world k workspace) lastModified of
             Inl e \<Rightarrow> Inl e
           | Inr fresh \<Rightarrow> Inr (fresh, c\<lparr> catalog := (catalog c)(workspace \<mapsto> fresh) \<rparr>)))"

definition FreshnessCatalog_isFresh ::
  "('w, 'd) World \<Rightarrow> 'w \<Rightarrow> 'w FreshnessCatalog \<Rightarrow> error + (bool \<times> 'w FreshnessCatalog)" where
  "FreshnessCatalog_isFresh world workspace c =
     isFresh_finish world (fst (isFresh_begin world workspace c))
       (snd (isFresh_begin world workspace c))"

subsection \<open>WorkspaceReport\<close>

text \<open>
  The class \<open>WorkspaceReport\<close>. A field that is \<open>undefined\<close> is \<open>None\<close>.
  \<open>dependencies\<close> is a JavaScript \<open>Map\<close> with string keys: an association list in
  insertion order, in which \<open>Map_set\<close> replaces the value of a key that is present and
  appends a key that is not.
\<close>

datatype 'w WorkspaceReport =
  WorkspaceReport
    (workspace: 'w)
    (isFresh: "bool option")
    (loopsBackToParent: "bool option")
    (dependenciesWereFresh: "bool option")
    (filesWereFresh: "bool option")
    (fileFreshnessFromCache: "bool option")
    (dependencies: "(string \<times> 'w WorkspaceReport) list")

definition new_WorkspaceReport :: "'w \<Rightarrow> 'w WorkspaceReport" where
  "new_WorkspaceReport ws = WorkspaceReport ws None None None None None []"

fun Map_set :: "'k \<Rightarrow> 'v \<Rightarrow> ('k \<times> 'v) list \<Rightarrow> ('k \<times> 'v) list" where
  "Map_set k v [] = [(k, v)]"
| "Map_set k v ((k', v') # m) = (if k' = k then (k, v) # m else (k', v') # Map_set k v m)"

text \<open>Assignments to the fields of a report.\<close>

fun set_isFresh :: "bool option \<Rightarrow> 'w WorkspaceReport \<Rightarrow> 'w WorkspaceReport" where
  "set_isFresh v (WorkspaceReport ws i l d f c deps) = WorkspaceReport ws v l d f c deps"

fun set_loopsBackToParent :: "bool option \<Rightarrow> 'w WorkspaceReport \<Rightarrow> 'w WorkspaceReport" where
  "set_loopsBackToParent v (WorkspaceReport ws i l d f c deps) = WorkspaceReport ws i v d f c deps"

fun set_dependenciesWereFresh :: "bool option \<Rightarrow> 'w WorkspaceReport \<Rightarrow> 'w WorkspaceReport" where
  "set_dependenciesWereFresh v (WorkspaceReport ws i l d f c deps) =
     WorkspaceReport ws i l v f c deps"

fun set_filesWereFresh :: "bool option \<Rightarrow> 'w WorkspaceReport \<Rightarrow> 'w WorkspaceReport" where
  "set_filesWereFresh v (WorkspaceReport ws i l d f c deps) = WorkspaceReport ws i l d v c deps"

fun set_fileFreshnessFromCache :: "bool option \<Rightarrow> 'w WorkspaceReport \<Rightarrow> 'w WorkspaceReport" where
  "set_fileFreshnessFromCache v (WorkspaceReport ws i l d f c deps) =
     WorkspaceReport ws i l d f v deps"

fun dependencies_set :: "string \<Rightarrow> 'w WorkspaceReport \<Rightarrow> 'w WorkspaceReport \<Rightarrow> 'w WorkspaceReport" where
  "dependencies_set k v (WorkspaceReport ws i l d f c deps) =
     WorkspaceReport ws i l d f c (Map_set k v deps)"

text \<open>
  What JavaScript takes for true in a condition: of the three values of a field,
  \<open>true\<close> alone.
\<close>

definition truthy :: "bool option \<Rightarrow> bool" where
  "truthy v = (v = Some True)"

subsection \<open>WorkspaceAuditor\<close>

text \<open>
  \<open>_auditDependencyWorkspace\<close> and its loop over the descriptors of the workspace
  (\<open>auditDependencies\<close>, which carries the descriptors still to visit). The catalog, the
  array \<open>path\<close> and the report are objects the code changes in place; here each call
  takes them and returns them changed. \<open>path.push\<close> appends, \<open>path.pop\<close> removes the
  last element of the array as the call left it.

  The code stores the new child report in \<open>report.dependencies\<close> first and fills its
  fields afterwards, through the reference it still holds; nothing else writes to that
  map in between, so the model stores the child once its fields are final, at the place
  of the \<open>continue\<close> or at the end of the loop body.

  The recursion is bounded by \<open>fuel\<close>, the number of nested calls allowed: \<open>None\<close> is
  a walk that needs more. \<open>Some (Inl e)\<close> is a walk that raised \<open>e\<close>.
\<close>

fun auditDependencyWorkspace ::
    "('w, 'd) World \<Rightarrow> nat \<Rightarrow> 'w \<Rightarrow> 'w FreshnessCatalog \<Rightarrow> 'd list \<Rightarrow> 'w WorkspaceReport \<Rightarrow>
      (error + (bool \<times> 'w FreshnessCatalog \<times> 'd list \<times> 'w WorkspaceReport)) option"
  and auditDependencies ::
    "('w, 'd) World \<Rightarrow> nat \<Rightarrow> 'w \<Rightarrow> 'd list \<Rightarrow> 'w FreshnessCatalog \<Rightarrow> 'd list \<Rightarrow>
      'w WorkspaceReport \<Rightarrow> (error + ('w FreshnessCatalog \<times> 'd list \<times> 'w WorkspaceReport)) option"
  where
  "auditDependencyWorkspace world 0 ws c path report = None"
| "auditDependencyWorkspace world (Suc fuel) ws c path report =
     (let report = set_isFresh (Some True) report;
          report = set_fileFreshnessFromCache (Some (fst (wasChecked ws c))) report;
          c = snd (wasChecked ws c)
      in case FreshnessCatalog_isFresh world ws c of
           Inl e \<Rightarrow> Some (Inl e)
         | Inr (fresh, c) \<Rightarrow>
             (let report = set_filesWereFresh (Some fresh) report;
                  report = (if \<not> fresh then set_isFresh (Some False) report else report);
                  report = set_dependenciesWereFresh (Some True) report
              in case auditDependencies world fuel ws (dependencies_values world ws)
                        c path report of
                   None \<Rightarrow> None
                 | Some (Inl e) \<Rightarrow> Some (Inl e)
                 | Some (Inr (c, path, report)) \<Rightarrow>
                     Some (Inr (truthy (dependenciesWereFresh report) \<and>
                                truthy (filesWereFresh report), c, path, report))))"
| "auditDependencies world fuel ws [] c path report = Some (Inr (c, path, report))"
| "auditDependencies world fuel ws (descriptor # rest) c path report =
     (case tryWorkspaceByDescriptor world descriptor of
        None \<Rightarrow> auditDependencies world fuel ws rest c path report
      | Some dependencyWorkspace \<Rightarrow>
          (let dependencyReport = new_WorkspaceReport dependencyWorkspace
           in if descriptor \<in> set path then
                (let dependencyReport = set_loopsBackToParent (Some True) dependencyReport;
                     report = dependencies_set (relativeCwd world ws) dependencyReport report
                 in auditDependencies world fuel ws rest c path report)
              else
                (let dependencyReport = set_loopsBackToParent (Some False) dependencyReport;
                     path = path @ [descriptor]
                 in case auditDependencyWorkspace world fuel dependencyWorkspace c path
                           dependencyReport of
                      None \<Rightarrow> None
                    | Some (Inl e) \<Rightarrow> Some (Inl e)
                    | Some (Inr (isDependencyFresh, c, path, dependencyReport)) \<Rightarrow>
                        (let path = butlast path;
                             dependencyReport =
                               set_dependenciesWereFresh (Some isDependencyFresh) dependencyReport;
                             dependencyReport =
                               (if \<not> isDependencyFresh
                                then set_isFresh (Some False) dependencyReport
                                else dependencyReport);
                             report =
                               (if \<not> isDependencyFresh
                                then set_dependenciesWereFresh (Some False) report
                                else report);
                             dependencyReport =
                               set_fileFreshnessFromCache
                                 (Some (fst (wasChecked dependencyWorkspace c))) dependencyReport;
                             c = snd (wasChecked dependencyWorkspace c)
                         in case FreshnessCatalog_isFresh world dependencyWorkspace c of
                              Inl e \<Rightarrow> Some (Inl e)
                            | Inr (fresh, c) \<Rightarrow>
                                (let dependencyReport =
                                       set_filesWereFresh (Some fresh) dependencyReport;
                                     dependencyReport =
                                       (if \<not> fresh
                                        then set_isFresh (Some False) dependencyReport
                                        else dependencyReport);
                                     report =
                                       (if \<not> fresh
                                        then set_dependenciesWereFresh (Some False) report
                                        else report);
                                     report =
                                       dependencies_set (relativeCwd world ws)
                                         dependencyReport report
                                 in auditDependencies world fuel ws rest c path report)))))"

definition WorkspaceAuditor_audit ::
  "('w, 'd) World \<Rightarrow> nat \<Rightarrow> 'w \<Rightarrow> 'w FreshnessCatalog \<Rightarrow>
    (error + ('w WorkspaceReport \<times> 'w FreshnessCatalog)) option" where
  "WorkspaceAuditor_audit world fuel ws freshnessCatalog =
     (let report = new_WorkspaceReport ws
      in case auditDependencyWorkspace world fuel ws freshnessCatalog [] report of
           None \<Rightarrow> None
         | Some (Inl e) \<Rightarrow> Some (Inl e)
         | Some (Inr (workspaceIsFresh, c, path, report)) \<Rightarrow>
             Some (Inr (set_isFresh (Some workspaceIsFresh) report, c)))"

subsection \<open>ProjectAuditor\<close>

text \<open>
  \<open>ProjectAuditor.audit\<close>, on the schedule of \<open>options.sequential = true\<close> (the
  default): each audit has returned before the next one starts. \<open>auditWorkspaces\<close> is the
  first loop, over \<open>project.workspaces\<close>, which fills \<open>pendingAudits\<close>;
  \<open>collectReports\<close> is the second, which moves every entry into \<open>reports\<close>. Both maps
  have workspaces for keys.
\<close>

type_synonym 'w ProjectReport = "('w \<times> 'w WorkspaceReport) list"

fun auditWorkspaces ::
    "('w, 'd) World \<Rightarrow> string list \<Rightarrow> nat \<Rightarrow> 'w list \<Rightarrow> 'w FreshnessCatalog \<Rightarrow>
      'w ProjectReport \<Rightarrow> (error + ('w ProjectReport \<times> 'w FreshnessCatalog)) option" where
  "auditWorkspaces project targets fuel [] freshnessCatalog pendingAudits =
     Some (Inr (pendingAudits, freshnessCatalog))"
| "auditWorkspaces project targets fuel (ws # rest) freshnessCatalog pendingAudits =
     (if ws = topLevelWorkspace project then
        auditWorkspaces project targets fuel rest freshnessCatalog pendingAudits
      else if relativeCwd project ws \<notin> set targets then
        auditWorkspaces project targets fuel rest freshnessCatalog pendingAudits
      else
        (case WorkspaceAuditor_audit project fuel ws freshnessCatalog of
           None \<Rightarrow> None
         | Some (Inl e) \<Rightarrow> Some (Inl e)
         | Some (Inr (pendingAudit, freshnessCatalog)) \<Rightarrow>
             auditWorkspaces project targets fuel rest freshnessCatalog
               (Map_set ws pendingAudit pendingAudits)))"

fun collectReports :: "'w ProjectReport \<Rightarrow> 'w ProjectReport \<Rightarrow> 'w ProjectReport" where
  "collectReports [] reports = reports"
| "collectReports ((ws, pendingReport) # pendingAudits) reports =
     collectReports pendingAudits (Map_set ws pendingReport reports)"

definition ProjectAuditor_audit ::
  "('w, 'd) World \<Rightarrow> string list \<Rightarrow> nat \<Rightarrow> (error + 'w ProjectReport) option" where
  "ProjectAuditor_audit project targets fuel =
     (case restoreInstallState project of
        Some e \<Rightarrow> Some (Inl e)
      | None \<Rightarrow>
          (let freshnessCatalog = loadPreviousState (configuration project) new_FreshnessCatalog
           in case auditWorkspaces project targets fuel (workspaces project)
                     freshnessCatalog [] of
                None \<Rightarrow> None
              | Some (Inl e) \<Rightarrow> Some (Inl e)
              | Some (Inr (pendingAudits, freshnessCatalog)) \<Rightarrow>
                  Some (Inr (collectReports pendingAudits []))))"

subsection \<open>ReportInspector\<close>

datatype 'w BuildInstruction = BuildInstruction 'w

text \<open>
  \<open>_unrollWorkspaceReport\<close> pushes onto the array \<open>instructions\<close>; the model returns
  the array. \<open>unrollDependencies\<close> is its loop over \<open>workspaceReport.dependencies\<close>, and
  \<open>unrollReports\<close> the loop of \<open>unroll\<close> over the project report.
\<close>

fun unrollWorkspaceReport ::
    "'w WorkspaceReport \<Rightarrow> 'w BuildInstruction list \<Rightarrow> 'w BuildInstruction list"
  and unrollDependencies ::
    "(string \<times> 'w WorkspaceReport) list \<Rightarrow> 'w BuildInstruction list \<Rightarrow> 'w BuildInstruction list"
  where
  "unrollWorkspaceReport (WorkspaceReport ws i l d f c deps) instructions =
     (if truthy l then instructions
      else if truthy i then instructions
      else if \<not> truthy d then
        unrollDependencies deps (instructions @ [BuildInstruction ws])
      else if \<not> truthy f then instructions @ [BuildInstruction ws]
      else instructions)"
| "unrollDependencies [] instructions = instructions"
| "unrollDependencies ((dependency, dependencyReport) # deps) instructions =
     unrollDependencies deps (unrollWorkspaceReport dependencyReport instructions)"

fun unrollReports :: "'w ProjectReport \<Rightarrow> 'w BuildInstruction list \<Rightarrow> 'w BuildInstruction list" where
  "unrollReports [] instructions = instructions"
| "unrollReports ((ws, workspaceReport) # report) instructions =
     unrollReports report (unrollWorkspaceReport workspaceReport instructions)"

definition unroll :: "'w ProjectReport \<Rightarrow> 'w BuildInstruction list" where
  "unroll report = unrollReports report []"

section \<open>Audits that run at once\<close>

text \<open>
  With \<open>options.sequential = false\<close>, \<open>ProjectAuditor.audit\<close> starts every audit before
  it awaits any. An audit then runs until it has to wait, and goes on when what it waits
  for is there; in between, the other audits run on the same catalog. The audits wait in
  \<open>FreshnessCatalog.isFresh\<close> only, so an audit is embedded a second time, as a
  \<open>task\<close>: the tree of its calls on the catalog. \<open>AskWasChecked\<close> is a call of
  \<open>wasChecked\<close>, which returns at once, \<open>AwaitIsFresh\<close> an awaited call of \<open>isFresh\<close>;
  both go on with the answer. \<open>Stuck\<close> is a task that would need more fuel.
  The \<open>await\<close>s of \<open>_auditDependencyWorkspace\<close> on itself touch nothing that is shared and
  are not points of their own.
\<close>

subsection \<open>WorkspaceAuditor as a task\<close>

datatype ('w, 'a) task =
    Done 'a
  | Stuck
  | AskWasChecked 'w "bool \<Rightarrow> ('w, 'a) task"
  | AwaitIsFresh 'w "bool \<Rightarrow> ('w, 'a) task"





subsection \<open>Audits that take turns\<close>

















subsection \<open>ProjectAuditor, all audits at once\<close>








section \<open>Notions used in the statements\<close>

subsection \<open>The files under a folder\<close>

text \<open>
  \<open>mtimes node\<close> lists the modification times of the files at and below a node, and
  \<open>greatest t xs\<close> says that \<open>t\<close> is an element of \<open>xs\<close> that no element exceeds.
\<close>

fun mtimes :: "fsnode \<Rightarrow> real list" and mtimes_list :: "fsnode list \<Rightarrow> real list" where
  "mtimes (File t) = [t]"
| "mtimes (Directory files) = mtimes_list files"
| "mtimes Special = []"
| "mtimes Locked = []"
| "mtimes Faulty = []"
| "mtimes_list [] = []"
| "mtimes_list (entry # files) = mtimes entry @ mtimes_list files"

definition greatest :: "real \<Rightarrow> real list \<Rightarrow> bool" where
  "greatest t xs = (t \<in> set xs \<and> (\<forall>x \<in> set xs. x \<le> t))"

subsection \<open>Runs of the catalog\<close>





subsection \<open>Report trees\<close>

text \<open>
  \<open>cycleReport dw\<close> is the child report the auditor stores for a descriptor that is
  already on the path, \<open>childStart dw\<close> the one it hands to the nested call otherwise.
  \<open>nodes r\<close> lists \<open>r\<close> and every report below it. A report is \<open>untouched\<close> when
  nothing but \<open>loopsBackToParent\<close> was ever assigned, \<open>settled\<close> when its three verdicts are
  set and \<open>isFresh\<close> is the conjunction of the other two, and \<open>sound\<close> when it is the one
  or the other according to \<open>loopsBackToParent\<close>.
\<close>

definition cycleReport :: "'w \<Rightarrow> 'w WorkspaceReport" where
  "cycleReport dw = WorkspaceReport dw None (Some True) None None None []"

definition childStart :: "'w \<Rightarrow> 'w WorkspaceReport" where
  "childStart dw = WorkspaceReport dw None (Some False) None None None []"

fun nodes :: "'w WorkspaceReport \<Rightarrow> 'w WorkspaceReport list"
  and children_nodes :: "(string \<times> 'w WorkspaceReport) list \<Rightarrow> 'w WorkspaceReport list" where
  "nodes (WorkspaceReport ws i l d f c deps) =
     WorkspaceReport ws i l d f c deps # children_nodes deps"
| "children_nodes [] = []"
| "children_nodes ((dependency, dependencyReport) # deps) =
     nodes dependencyReport @ children_nodes deps"

definition untouched :: "'w WorkspaceReport \<Rightarrow> bool" where
  "untouched r = (isFresh r = None \<and> dependenciesWereFresh r = None \<and> filesWereFresh r = None \<and>
     fileFreshnessFromCache r = None \<and> dependencies r = [])"

definition settled :: "'w WorkspaceReport \<Rightarrow> bool" where
  "settled r =
     (case (dependenciesWereFresh r, filesWereFresh r) of
        (Some d, Some f) \<Rightarrow> isFresh r = Some (d \<and> f)
      | _ \<Rightarrow> False)"

definition sound :: "'w WorkspaceReport \<Rightarrow> bool" where
  "sound n = (if truthy (loopsBackToParent n) then untouched n else settled n)"

definition tree_sound :: "(string \<times> 'w WorkspaceReport) list \<Rightarrow> bool" where
  "tree_sound deps = (\<forall>n \<in> set (children_nodes deps). sound n)"

subsection \<open>Small projects\<close>

text \<open>
  A project with the top-level workspace and the workspaces \<open>A\<close>, \<open>B\<close> and \<open>C\<close>. The
  descriptors are named after the edge they stand for; \<open>AX\<close> is a dependency of \<open>A\<close> on
  a package outside the project. Every workspace has one source file, the log of the
  previous run records the time 10 for every workspace, and the clock reads 1000: a
  workspace is fresh when its file has the time 10.

  In \<open>diamond\<close>, \<open>A\<close> depends on \<open>B\<close> and \<open>C\<close> and the file of \<open>B\<close> has changed. In
  \<open>chain\<close>, \<open>A\<close> depends on the outside package and on \<open>B\<close>, whose file has changed.
  In \<open>circle\<close>, \<open>A\<close> depends on \<open>B\<close> and \<open>B\<close> on \<open>A\<close>, and nothing has changed.
  \<open>started world\<close> is the catalog as \<open>ProjectAuditor.audit\<close> prepares it.
\<close>

datatype pkg = Top | A | B | C

datatype edge = AB | AC | BA | AX

fun pkg_cwd :: "pkg \<Rightarrow> string" where
  "pkg_cwd Top = ''.''"
| "pkg_cwd A = ''packages/a''"
| "pkg_cwd B = ''packages/b''"
| "pkg_cwd C = ''packages/c''"

fun edge_target :: "edge \<Rightarrow> pkg option" where
  "edge_target AB = Some B"
| "edge_target AC = Some C"
| "edge_target BA = Some A"
| "edge_target AX = None"

definition example :: "(pkg \<Rightarrow> edge list) \<Rightarrow> (pkg \<Rightarrow> real) \<Rightarrow> (pkg, edge) World" where
  "example deps mtime =
     \<lparr> workspaces = [Top, A, B, C], topLevelWorkspace = Top, relativeCwd = pkg_cwd,
       dependencies_values = deps, tryWorkspaceByDescriptor = edge_target,
       sourceDirectory = (\<lambda>k ws. Directory [File (mtime ws)]), now = (\<lambda>k. 1000),
       configuration = (\<lambda>key. Some (Some 10)), restoreInstallState = None \<rparr>"

definition diamond :: "(pkg, edge) World" where
  "diamond = example (\<lambda>ws. if ws = A then [AB, AC] else []) (\<lambda>ws. if ws = B then 20 else 10)"

definition chain :: "(pkg, edge) World" where
  "chain = example (\<lambda>ws. if ws = A then [AX, AB] else []) (\<lambda>ws. if ws = B then 20 else 10)"

definition circle :: "(pkg, edge) World" where
  "circle = example (\<lambda>ws. if ws = A then [AB] else if ws = B then [BA] else []) (\<lambda>ws. 10)"

definition started :: "(pkg, edge) World \<Rightarrow> pkg FreshnessCatalog" where
  "started world = loadPreviousState (configuration world) new_FreshnessCatalog"


subsection \<open>Tasks and audits that have been started\<close>


primrec stuck_free :: "('w, 'a) task \<Rightarrow> bool" where
  "stuck_free (Done x) = True"
| "stuck_free Stuck = False"
| "stuck_free (AskWasChecked w k) = (stuck_free (k True) \<and> stuck_free (k False))"
| "stuck_free (AwaitIsFresh w k) = (stuck_free (k True) \<and> stuck_free (k False))"






section \<open>FreshnessDetector: the scan and the comparison\<close>

lemma scanFiles_File:
  "scanFiles (File t # files) acc = scanFiles files (if t > acc then t else acc)"
  by (simp add: Let_def)

lemma scanFiles_Directory:
  "scanFiles (Directory sub # files) acc =
     (case scanFiles sub 0 of Inl e \<Rightarrow> Inl e
      | Inr m \<Rightarrow> scanFiles files (if m > acc then m else acc))"
  by (simp add: Let_def)

lemma scanFiles_other:
  "scanFiles (Special # files) acc = scanFiles files acc"
  "scanFiles (Locked # files) acc = Inl FilesystemError"
  "scanFiles (Faulty # files) acc = Inl FilesystemError"
  by (simp_all add: Let_def)

lemma greatest_File:
  "greatest t ((if x > acc then x else acc) # xs) \<Longrightarrow> greatest t (acc # x # xs)"
  by (auto simp: greatest_def split: if_splits)

lemma greatest_Directory:
  "0 \<le> acc \<Longrightarrow> greatest m (0 # ys) \<Longrightarrow>
     greatest t ((if m > acc then m else acc) # xs) \<Longrightarrow> greatest t (acc # ys @ xs)"
  unfolding greatest_def by (cases "m > acc") (simp_all, force+)

lemma scanFiles_greatest:
  assumes "\<And>sub m. Directory sub \<in> set files \<Longrightarrow> scanFiles sub 0 = Inr m \<Longrightarrow>
             greatest m (0 # mtimes_list sub)"
  shows "0 \<le> acc \<Longrightarrow> scanFiles files acc = Inr t \<Longrightarrow> greatest t (acc # mtimes_list files)"
  using assms
proof (induction files arbitrary: acc)
  case Nil
  then show ?case by (simp add: greatest_def)
next
  case (Cons entry files)
  show ?case
  proof (cases entry)
    case (File x)
    have "scanFiles files (if x > acc then x else acc) = Inr t"
      using Cons.prems(2) File by (simp only: scanFiles_File)
    moreover have "0 \<le> (if x > acc then x else acc)" using Cons.prems(1) by simp
    ultimately have "greatest t ((if x > acc then x else acc) # mtimes_list files)"
      using Cons.IH Cons.prems(3) by simp
    then show ?thesis using File by (simp add: greatest_File)
  next
    case (Directory sub)
    with Cons.prems(2) obtain m where m: "scanFiles sub 0 = Inr m"
        and rest: "scanFiles files (if m > acc then m else acc) = Inr t"
      by (auto simp only: scanFiles_Directory split: sum.splits)
    have gm: "greatest m (0 # mtimes_list sub)" using Cons.prems(3) Directory m by simp
    have "0 \<le> (if m > acc then m else acc)" using Cons.prems(1) by simp
    then have "greatest t ((if m > acc then m else acc) # mtimes_list files)"
      using Cons.IH rest Cons.prems(3) by simp
    then show ?thesis using Directory gm Cons.prems(1) by (simp add: greatest_Directory)
  next
    case Special
    with Cons show ?thesis by (simp add: scanFiles_other del: scanFiles.simps)
  next
    case Locked
    with Cons show ?thesis by (simp add: scanFiles_other del: scanFiles.simps)
  next
    case Faulty
    with Cons show ?thesis by (simp add: scanFiles_other del: scanFiles.simps)
  qed
qed

lemma getLastModifiedForFolder_greatest:
  "getLastModifiedForFolder folder = Inr t \<Longrightarrow> greatest t (0 # mtimes folder)"
proof (induction folder arbitrary: t)
  case (Directory files)
  have "scanFiles files 0 = Inr t" using Directory.prems by simp
  moreover have "\<And>sub m. Directory sub \<in> set files \<Longrightarrow> scanFiles sub 0 = Inr m \<Longrightarrow>
             greatest m (0 # mtimes_list sub)"
    using Directory.IH by fastforce
  ultimately show ?case using scanFiles_greatest[of files 0 t] by simp
qed simp_all

lemma greatest_Max: "greatest t xs \<Longrightarrow> t = Max (set xs)"
  unfolding greatest_def by (metis List.finite_set Max_eqI)

text \<open>
  Claim C9. The own-file check answers fresh exactly when the latest modification time
  found under the source folder equals the baseline; a latest time older than the
  baseline is not fresh either. The scan starts its maximum at 0, so the latest time is
  the greatest of 0 and the times of the files. A scan that raises gives no answer.
\<close>

theorem FreshnessDetector_isFresh_exact:
  "FreshnessDetector_isFresh sourceDir lastModified = Inr fresh \<Longrightarrow>
     fresh = (Max (set (0 # mtimes sourceDir)) = lastModified) \<and>
     (Max (set (0 # mtimes sourceDir)) < lastModified \<longrightarrow> \<not> fresh)"
proof -
  assume a: "FreshnessDetector_isFresh sourceDir lastModified = Inr fresh"
  then obtain timeSource where t: "getLastModifiedForFolder sourceDir = Inr timeSource"
    and f: "fresh = (lastModified - timeSource = 0)"
    by (auto simp: FreshnessDetector_isFresh_def Let_def split: sum.splits)
  define latest where "latest = Max (set (0 # mtimes sourceDir))"
  have "timeSource = latest"
    unfolding latest_def using getLastModifiedForFolder_greatest[OF t] by (rule greatest_Max)
  with f have "fresh = (latest = lastModified) \<and> (latest < lastModified \<longrightarrow> \<not> fresh)"
    by auto
  then show ?thesis unfolding latest_def .
qed

theorem FreshnessDetector_isFresh_exact_witness:
  "FreshnessDetector_isFresh (Directory [File 5, Directory [File 7, Special], File 3]) 9 = Inr False \<and>
   Max (set (0 # mtimes (Directory [File 5, Directory [File 7, Special], File 3]))) \<noteq> 9 \<and>
   FreshnessDetector_isFresh (Directory [File 5, Directory [File 7, Special], File 3]) 7 = Inr True \<and>
   Max (set (0 # mtimes (Directory [File 5, Directory [File 7, Special], File 3]))) = 7"
proof -
  have old: "FreshnessDetector_isFresh (Directory [File 5, Directory [File 7, Special], File 3]) 9 =
          Inr False"
    by (simp add: FreshnessDetector_isFresh_def Let_def)
  have same: "FreshnessDetector_isFresh (Directory [File 5, Directory [File 7, Special], File 3]) 7 =
          Inr True"
    by (simp add: FreshnessDetector_isFresh_def Let_def)
  show ?thesis
    using old same FreshnessDetector_isFresh_exact[OF old] FreshnessDetector_isFresh_exact[OF same]
    by blast
qed

section \<open>FreshnessCatalog: one scan for each workspace\<close>












section \<open>WorkspaceAuditor: the walk over the dependencies\<close>

subsection \<open>One step of the loop, one call of the walk\<close>

lemma auditDependencies_skip:
  "tryWorkspaceByDescriptor world d = None \<Longrightarrow>
     auditDependencies world fuel ws (d # rest) c path report =
     auditDependencies world fuel ws rest c path report"
  by simp

lemma auditDependencies_cycle:
  "tryWorkspaceByDescriptor world d = Some dw \<Longrightarrow> d \<in> set path \<Longrightarrow>
     auditDependencies world fuel ws (d # rest) c path report =
     auditDependencies world fuel ws rest c path
       (dependencies_set (relativeCwd world ws) (cycleReport dw) report)"
  by (simp add: Let_def new_WorkspaceReport_def cycleReport_def)

lemma auditDependencies_descend:
  assumes "tryWorkspaceByDescriptor world d = Some dw" and "d \<notin> set path"
    and "auditDependencyWorkspace world fuel dw c (path @ [d]) (childStart dw) =
           Some (Inr (b, c1, path1, WorkspaceReport w i l dd f k m))"
    and "FreshnessCatalog_isFresh world dw c1 = Inr (f2, c2)"
  shows "auditDependencies world fuel ws (d # rest) c path report =
     auditDependencies world fuel ws rest c2 (butlast path1)
       (dependencies_set (relativeCwd world ws)
          (WorkspaceReport w (if b \<and> f2 then i else Some False) l (Some b) (Some f2)
             (Some (catalog c1 dw \<noteq> None)) m)
          (if b \<and> f2 then report else set_dependenciesWereFresh (Some False) report))"
  using assms
  by (cases report) (simp add: Let_def new_WorkspaceReport_def childStart_def wasChecked_def)

lemma auditDependencies_descend_cases:
  assumes "tryWorkspaceByDescriptor world d = Some dw" and "d \<notin> set path"
    and "auditDependencies world fuel ws (d # rest) c path report = Some (Inr res)"
  obtains b c1 path1 w i l dd f k m f2 c2 where
    "auditDependencyWorkspace world fuel dw c (path @ [d]) (childStart dw) =
           Some (Inr (b, c1, path1, WorkspaceReport w i l dd f k m))"
    "FreshnessCatalog_isFresh world dw c1 = Inr (f2, c2)"
proof -
  from assms obtain b c1 path1 cr where
    1: "auditDependencyWorkspace world fuel dw c (path @ [d]) (childStart dw) =
           Some (Inr (b, c1, path1, cr))"
    by (auto simp: Let_def new_WorkspaceReport_def childStart_def split: option.splits sum.splits)
  from assms 1 obtain f2 c2 where
    2: "FreshnessCatalog_isFresh world dw c1 = Inr (f2, c2)"
    by (auto simp: Let_def new_WorkspaceReport_def childStart_def wasChecked_def split: sum.splits)
  obtain w i l dd f k m where "cr = WorkspaceReport w i l dd f k m" by (cases cr)
  with 1 2 that show ?thesis by blast
qed

lemma auditDependencyWorkspace_Suc:
  assumes "FreshnessCatalog_isFresh world ws c = Inr (f, c1)"
  shows "auditDependencyWorkspace world (Suc fuel) ws c path (WorkspaceReport w i l dd ff k m) =
     (case auditDependencies world fuel ws (dependencies_values world ws) c1 path
             (WorkspaceReport w (Some f) l (Some True) (Some f) (Some (catalog c ws \<noteq> None)) m) of
        None \<Rightarrow> None
      | Some (Inl e) \<Rightarrow> Some (Inl e)
      | Some (Inr (c', path', report')) \<Rightarrow>
          Some (Inr (truthy (dependenciesWereFresh report') \<and> truthy (filesWereFresh report'),
                     c', path', report')))"
  using assms by (simp add: Let_def wasChecked_def)

lemma auditDependencyWorkspace_Suc_cases:
  assumes "auditDependencyWorkspace world (Suc fuel) ws c path report = Some (Inr res)"
  obtains f c1 where "FreshnessCatalog_isFresh world ws c = Inr (f, c1)"
  using assms by (auto simp: Let_def wasChecked_def split: sum.splits)

text \<open>
  A rule for properties of the walk that are read off its result: it is enough to show
  the property \<open>PL\<close> of the loop for the end of the loop, for the step at a descriptor on
  the path and for the step that descends, and the property \<open>PW\<close> of a call from that of
  its loop.
\<close>

lemma auditDependencies_rule:
  assumes finish: "\<And>ws c path report. PL ws c path report c path report"
    and cycle: "\<And>ws c path report d dw c' path' report'.
      tryWorkspaceByDescriptor world d = Some dw \<Longrightarrow> d \<in> set path \<Longrightarrow>
      PL ws c path (dependencies_set (relativeCwd world ws) (cycleReport dw) report)
         c' path' report' \<Longrightarrow>
      PL ws c path report c' path' report'"
    and descend: "\<And>ws c path report d dw b c1 path1 w i l dd f k m f2 c2 c' path' report'.
      tryWorkspaceByDescriptor world d = Some dw \<Longrightarrow> d \<notin> set path \<Longrightarrow>
      PW dw c (path @ [d]) (childStart dw) b c1 path1 (WorkspaceReport w i l dd f k m) \<Longrightarrow>
      FreshnessCatalog_isFresh world dw c1 = Inr (f2, c2) \<Longrightarrow>
      PL ws c2 (butlast path1)
         (dependencies_set (relativeCwd world ws)
            (WorkspaceReport w (if b \<and> f2 then i else Some False) l (Some b) (Some f2)
               (Some (catalog c1 dw \<noteq> None)) m)
            (if b \<and> f2 then report else set_dependenciesWereFresh (Some False) report))
         c' path' report' \<Longrightarrow>
      PL ws c path report c' path' report'"
    and callee: "\<And>ws c path report b c' path' report'.
      auditDependencyWorkspace world fuel ws c path report = Some (Inr (b, c', path', report')) \<Longrightarrow>
      PW ws c path report b c' path' report'"
  shows "auditDependencies world fuel ws ds c path report = Some (Inr (c', path', report')) \<Longrightarrow>
         PL ws c path report c' path' report'"
proof (induction ds arbitrary: c path report)
  case Nil
  then show ?case using finish by simp
next
  case (Cons d rest)
  show ?case
  proof (cases "tryWorkspaceByDescriptor world d")
    case None
    then show ?thesis using Cons by simp
  next
    case (Some dw)
    show ?thesis
    proof (cases "d \<in> set path")
      case True
      have "auditDependencies world fuel ws rest c path
              (dependencies_set (relativeCwd world ws) (cycleReport dw) report) =
            Some (Inr (c', path', report'))"
        using Cons.prems auditDependencies_cycle[OF Some True] by simp
      from Cons.IH[OF this] show ?thesis by (rule cycle[OF Some True])
    next
      case False
      from auditDependencies_descend_cases[OF Some False Cons.prems]
      obtain b c1 path1 w i l dd f k m f2 c2 where
        1: "auditDependencyWorkspace world fuel dw c (path @ [d]) (childStart dw) =
              Some (Inr (b, c1, path1, WorkspaceReport w i l dd f k m))"
        and 2: "FreshnessCatalog_isFresh world dw c1 = Inr (f2, c2)"
        by blast
      have "auditDependencies world fuel ws rest c2 (butlast path1)
              (dependencies_set (relativeCwd world ws)
                 (WorkspaceReport w (if b \<and> f2 then i else Some False) l (Some b) (Some f2)
                    (Some (catalog c1 dw \<noteq> None)) m)
                 (if b \<and> f2 then report else set_dependenciesWereFresh (Some False) report)) =
            Some (Inr (c', path', report'))"
        using Cons.prems auditDependencies_descend[OF Some False 1 2] by simp
      from Cons.IH[OF this] show ?thesis
        by (rule descend[OF Some False callee[OF 1] 2])
    qed
  qed
qed

lemma audit_rule:
  assumes finish: "\<And>ws c path report. PL ws c path report c path report"
    and cycle: "\<And>ws c path report d dw c' path' report'.
      tryWorkspaceByDescriptor world d = Some dw \<Longrightarrow> d \<in> set path \<Longrightarrow>
      PL ws c path (dependencies_set (relativeCwd world ws) (cycleReport dw) report)
         c' path' report' \<Longrightarrow>
      PL ws c path report c' path' report'"
    and descend: "\<And>ws c path report d dw b c1 path1 w i l dd f k m f2 c2 c' path' report'.
      tryWorkspaceByDescriptor world d = Some dw \<Longrightarrow> d \<notin> set path \<Longrightarrow>
      PW dw c (path @ [d]) (childStart dw) b c1 path1 (WorkspaceReport w i l dd f k m) \<Longrightarrow>
      FreshnessCatalog_isFresh world dw c1 = Inr (f2, c2) \<Longrightarrow>
      PL ws c2 (butlast path1)
         (dependencies_set (relativeCwd world ws)
            (WorkspaceReport w (if b \<and> f2 then i else Some False) l (Some b) (Some f2)
               (Some (catalog c1 dw \<noteq> None)) m)
            (if b \<and> f2 then report else set_dependenciesWereFresh (Some False) report))
         c' path' report' \<Longrightarrow>
      PL ws c path report c' path' report'"
    and enter: "\<And>ws c path w i l dd ff k m f c1 c' path' report'.
      FreshnessCatalog_isFresh world ws c = Inr (f, c1) \<Longrightarrow>
      PL ws c1 path
         (WorkspaceReport w (Some f) l (Some True) (Some f) (Some (catalog c ws \<noteq> None)) m)
         c' path' report' \<Longrightarrow>
      PW ws c path (WorkspaceReport w i l dd ff k m)
         (truthy (dependenciesWereFresh report') \<and> truthy (filesWereFresh report'))
         c' path' report'"
  shows "auditDependencyWorkspace world fuel ws c path report = Some (Inr (b, c', path', report')) \<Longrightarrow>
         PW ws c path report b c' path' report'"
proof (induction fuel arbitrary: ws c path report b c' path' report')
  case 0
  then show ?case by simp
next
  case (Suc fuel)
  obtain w i l dd ff k m where r: "report = WorkspaceReport w i l dd ff k m" by (cases report)
  from auditDependencyWorkspace_Suc_cases[OF Suc.prems]
  obtain f c1 where 1: "FreshnessCatalog_isFresh world ws c = Inr (f, c1)" by blast
  from Suc.prems auditDependencyWorkspace_Suc[OF 1, of fuel path w i l dd ff k m]
  have 2: "auditDependencies world fuel ws (dependencies_values world ws) c1 path
             (WorkspaceReport w (Some f) l (Some True) (Some f) (Some (catalog c ws \<noteq> None)) m) =
           Some (Inr (c', path', report'))"
    and 3: "b = (truthy (dependenciesWereFresh report') \<and> truthy (filesWereFresh report'))"
    by (auto simp: r split: option.splits sum.splits)
  have "PL ws c1 path
         (WorkspaceReport w (Some f) l (Some True) (Some f) (Some (catalog c ws \<noteq> None)) m)
         c' path' report'"
    using finish cycle descend Suc.IH 2 by (rule auditDependencies_rule)
  from enter[OF 1 this] show ?case by (simp add: r 3)
qed

subsection \<open>The path is the same after a call\<close>

lemma audit_path:
  "auditDependencyWorkspace world fuel ws c path report = Some (Inr (b, c', path', report')) \<Longrightarrow>
     path' = path"
  by (rule audit_rule[where PL = "\<lambda>ws c path report c' path' report'. path' = path"
        and PW = "\<lambda>ws c path report b c' path' report'. path' = path"]) simp_all

subsection \<open>Every report of the tree is sound\<close>

lemma children_nodes_Map_set:
  "set (children_nodes (Map_set k v m)) \<subseteq> set (nodes v) \<union> set (children_nodes m)"
proof (induction m)
  case Nil
  show ?case by simp
next
  case (Cons p m)
  obtain k' v' where p: "p = (k', v')" by (cases p)
  show ?case using Cons by (auto simp: p)
qed

lemma nodes_self: "set (nodes r) = insert r (set (children_nodes (dependencies r)))"
  by (cases r) simp

lemma dependencies_set_fields:
  "dependencies (dependencies_set k v r) = Map_set k v (dependencies r)"
  "isFresh (dependencies_set k v r) = isFresh r"
  "loopsBackToParent (dependencies_set k v r) = loopsBackToParent r"
  "dependenciesWereFresh (dependencies_set k v r) = dependenciesWereFresh r"
  "filesWereFresh (dependencies_set k v r) = filesWereFresh r"
  "fileFreshnessFromCache (dependencies_set k v r) = fileFreshnessFromCache r"
  "workspace (dependencies_set k v r) = workspace r"
  by (cases r; simp)+

lemma set_dependenciesWereFresh_fields:
  "dependencies (set_dependenciesWereFresh x r) = dependencies r"
  "isFresh (set_dependenciesWereFresh x r) = isFresh r"
  "loopsBackToParent (set_dependenciesWereFresh x r) = loopsBackToParent r"
  "dependenciesWereFresh (set_dependenciesWereFresh x r) = x"
  "filesWereFresh (set_dependenciesWereFresh x r) = filesWereFresh r"
  "fileFreshnessFromCache (set_dependenciesWereFresh x r) = fileFreshnessFromCache r"
  "workspace (set_dependenciesWereFresh x r) = workspace r"
  by (cases r; simp)+

lemma set_isFresh_fields:
  "dependencies (set_isFresh x r) = dependencies r"
  "isFresh (set_isFresh x r) = x"
  "loopsBackToParent (set_isFresh x r) = loopsBackToParent r"
  "dependenciesWereFresh (set_isFresh x r) = dependenciesWereFresh r"
  "filesWereFresh (set_isFresh x r) = filesWereFresh r"
  by (cases r; simp)+

lemma tree_sound_Map_set:
  "tree_sound m \<Longrightarrow> sound v \<Longrightarrow> tree_sound (dependencies v) \<Longrightarrow> tree_sound (Map_set k v m)"
proof -
  assume a: "tree_sound m" "sound v" "tree_sound (dependencies v)"
  show ?thesis
    unfolding tree_sound_def
  proof
    fix n assume "n \<in> set (children_nodes (Map_set k v m))"
    then have "n \<in> set (children_nodes m) \<or> n = v \<or> n \<in> set (children_nodes (dependencies v))"
      using children_nodes_Map_set[of k v m] nodes_self[of v] by auto
    then show "sound n" using a unfolding tree_sound_def by auto
  qed
qed

lemma audit_sound:
  assumes "auditDependencyWorkspace world fuel ws c path report = Some (Inr (b, c', path', report'))"
  shows "tree_sound (dependencies report) \<longrightarrow>
           tree_sound (dependencies report') \<and>
           loopsBackToParent report' = loopsBackToParent report \<and>
           (\<exists>d f. dependenciesWereFresh report' = Some d \<and> filesWereFresh report' = Some f \<and>
                  isFresh report' = Some f \<and> b = (d \<and> f))"
proof (rule audit_rule[where
      PL = "\<lambda>ws c path report c' path' report'.
              tree_sound (dependencies report) \<and> dependenciesWereFresh report \<noteq> None \<longrightarrow>
              tree_sound (dependencies report') \<and> dependenciesWereFresh report' \<noteq> None \<and>
              loopsBackToParent report' = loopsBackToParent report \<and>
              filesWereFresh report' = filesWereFresh report \<and>
              isFresh report' = isFresh report"
      and PW = "\<lambda>ws c path report b c' path' report'.
              tree_sound (dependencies report) \<longrightarrow>
              tree_sound (dependencies report') \<and>
              loopsBackToParent report' = loopsBackToParent report \<and>
              (\<exists>d f. dependenciesWereFresh report' = Some d \<and> filesWereFresh report' = Some f \<and>
                  isFresh report' = Some f \<and> b = (d \<and> f))", OF _ _ _ _ assms], goal_cases)
  case (1 ws c path report)
  show ?case by simp
next
  case (2 ws c path report d dw c' path' report')
  have "sound (cycleReport dw)" "tree_sound (dependencies (cycleReport dw))"
    by (simp_all add: sound_def cycleReport_def truthy_def untouched_def tree_sound_def)
  then show ?case using 2(3) by (simp add: dependencies_set_fields tree_sound_Map_set)
next
  case (3 ws c path report d dw b c1 path1 w i l dd f k m f2 c2 c' path' report')
  have "tree_sound (dependencies (childStart dw))" by (simp add: childStart_def tree_sound_def)
  with 3(3) obtain d' f' where m: "tree_sound m" and l: "l = Some False"
     and i: "dd = Some d'" "f = Some f'" "i = Some f'" "b = (d' \<and> f')"
    by (auto simp: childStart_def)
  let ?child = "WorkspaceReport w (if b \<and> f2 then i else Some False) l (Some b) (Some f2)
               (Some (catalog c1 dw \<noteq> None)) m"
  from i have "sound ?child" by (auto simp: sound_def l truthy_def settled_def)
  then have "tree_sound (Map_set (relativeCwd world ws) ?child (dependencies report))"
    if "tree_sound (dependencies report)"
    using that m by (simp add: tree_sound_Map_set)
  then show ?case using 3(5)
    by (auto simp: dependencies_set_fields set_dependenciesWereFresh_fields split: if_splits)
next
  case (4 ws c path w i l dd ff k m f c1 c' path' report')
  then show ?case by (cases "dependenciesWereFresh report'") (auto simp: truthy_def)
qed

lemma audit_root:
  assumes "WorkspaceAuditor_audit world fuel ws c = Some (Inr (report, c'))"
  shows "tree_sound (dependencies report) \<and> loopsBackToParent report = None \<and>
         (\<exists>d f. dependenciesWereFresh report = Some d \<and> filesWereFresh report = Some f \<and>
                 isFresh report = Some (d \<and> f))"
proof -
  from assms obtain b path' report' where
    1: "auditDependencyWorkspace world fuel ws c [] (new_WorkspaceReport ws) =
          Some (Inr (b, c', path', report'))"
    and 2: "report = set_isFresh (Some b) report'"
    by (auto simp: WorkspaceAuditor_audit_def Let_def split: option.splits sum.splits)
  have "tree_sound (dependencies (new_WorkspaceReport ws))"
    by (simp add: new_WorkspaceReport_def tree_sound_def)
  with audit_sound[OF 1] show ?thesis
    by (auto simp: 2 set_isFresh_fields new_WorkspaceReport_def)
qed

lemma audit_result:
  assumes "map_option (map_sum id fst) (WorkspaceAuditor_audit world fuel ws c) = Some (Inr report)"
  shows "\<exists>c'. WorkspaceAuditor_audit world fuel ws c = Some (Inr (report, c'))"
proof (cases "WorkspaceAuditor_audit world fuel ws c")
  case None
  then show ?thesis using assms by simp
next
  case (Some result)
  show ?thesis
  proof (cases result)
    case (Inl e)
    then show ?thesis using assms Some by simp
  next
    case (Inr p)
    then show ?thesis using assms Some by (cases p) simp
  qed
qed



text \<open>
  Claim C8. A report marked \<open>loopsBackToParent\<close> is a leaf: in the tree an audit
  returns, its four other verdicts are undefined and its \<open>dependencies\<close> are empty, and the
  inspector adds no instruction for it. When the loop meets a descriptor that is on the
  path, it stores such a report and goes on with the next descriptor: no nested call is
  made, the catalog and the path stay as they are, and \<open>dependenciesWereFresh\<close> of the
  parent is not touched.
\<close>

theorem cycle_report_is_leaf:
  "(WorkspaceAuditor_audit world fuel ws c = Some (Inr (report, c')) \<and>
    n \<in> set (nodes report) \<and> loopsBackToParent n = Some True \<longrightarrow>
      isFresh n = None \<and> dependenciesWereFresh n = None \<and> filesWereFresh n = None \<and>
      fileFreshnessFromCache n = None \<and> dependencies n = [] \<and>
      unrollWorkspaceReport n instructions = instructions) \<and>
   (tryWorkspaceByDescriptor world d = Some dw \<and> d \<in> set path \<longrightarrow>
      auditDependencies world k parentWorkspace (d # rest) c1 path parent =
        auditDependencies world k parentWorkspace rest c1 path
          (dependencies_set (relativeCwd world parentWorkspace)
             (WorkspaceReport dw None (Some True) None None None []) parent) \<and>
      dependenciesWereFresh
          (dependencies_set (relativeCwd world parentWorkspace)
             (WorkspaceReport dw None (Some True) None None None []) parent) =
        dependenciesWereFresh parent)"
proof (intro conjI impI)
  assume a: "WorkspaceAuditor_audit world fuel ws c = Some (Inr (report, c')) \<and>
    n \<in> set (nodes report) \<and> loopsBackToParent n = Some True"
  then have "n \<noteq> report" using audit_root[of world fuel ws c report c'] by auto
  then have "n \<in> set (children_nodes (dependencies report))"
    using a nodes_self[of report] by simp
  then have "sound n" using a audit_root[of world fuel ws c report c'] by (simp add: tree_sound_def)
  then have u: "untouched n" using a by (simp add: sound_def truthy_def)
  show "isFresh n = None" "dependenciesWereFresh n = None" "filesWereFresh n = None"
    "fileFreshnessFromCache n = None" "dependencies n = []"
    using u by (simp_all add: untouched_def)
  show "unrollWorkspaceReport n instructions = instructions"
    using a by (cases n) (simp add: truthy_def)
next
  assume "tryWorkspaceByDescriptor world d = Some dw \<and> d \<in> set path"
  then show "auditDependencies world k parentWorkspace (d # rest) c1 path parent =
        auditDependencies world k parentWorkspace rest c1 path
          (dependencies_set (relativeCwd world parentWorkspace)
             (WorkspaceReport dw None (Some True) None None None []) parent)"
    using auditDependencies_cycle[of world d dw path k parentWorkspace rest c1 parent]
    by (simp add: cycleReport_def)
next
  show "dependenciesWereFresh
          (dependencies_set (relativeCwd world parentWorkspace)
             (WorkspaceReport dw None (Some True) None None None []) parent) =
        dependenciesWereFresh parent"
    by (simp add: dependencies_set_fields)
qed

theorem cycle_report_is_leaf_witness:
  "\<exists>c'. WorkspaceAuditor_audit circle 3 A (started circle) =
          Some (Inr (WorkspaceReport A (Some True) None (Some True) (Some True) (Some False)
            [(''packages/a'',
              WorkspaceReport B (Some True) (Some False) (Some True) (Some True) (Some True)
                [(''packages/b'',
                  WorkspaceReport A (Some True) (Some False) (Some True) (Some True) (Some True)
                    [(''packages/a'', WorkspaceReport B None (Some True) None None None [])])])],
            c')) \<and>
        WorkspaceReport B None (Some True) None None None []
          \<in> set (nodes (WorkspaceReport A (Some True) None (Some True) (Some True) (Some False)
            [(''packages/a'',
              WorkspaceReport B (Some True) (Some False) (Some True) (Some True) (Some True)
                [(''packages/b'',
                  WorkspaceReport A (Some True) (Some False) (Some True) (Some True) (Some True)
                    [(''packages/a'', WorkspaceReport B None (Some True) None None None [])])])])) \<and>
        unrollWorkspaceReport (WorkspaceReport B None (Some True) None None None [])
          [BuildInstruction C] = [BuildInstruction C] \<and>
        tryWorkspaceByDescriptor circle AB = Some B \<and> AB \<in> set [AB, BA] \<and>
        auditDependencies circle 1 A [AB] (started circle) [AB, BA]
            (WorkspaceReport A (Some True) (Some False) (Some True) (Some True) (Some True) []) =
          Some (Inr (started circle, [AB, BA],
            WorkspaceReport A (Some True) (Some False) (Some True) (Some True) (Some True)
              [(''packages/a'', WorkspaceReport B None (Some True) None None None [])]))"
proof -
  let ?loop = "WorkspaceReport B None (Some True) None None None []"
  let ?tree = "WorkspaceReport A (Some True) None (Some True) (Some True) (Some False)
            [(''packages/a'',
              WorkspaceReport B (Some True) (Some False) (Some True) (Some True) (Some True)
                [(''packages/b'',
                  WorkspaceReport A (Some True) (Some False) (Some True) (Some True) (Some True)
                    [(''packages/a'', ?loop)])])]"
  let ?parent = "WorkspaceReport A (Some True) (Some False) (Some True) (Some True) (Some True) []"
  have "map_option (map_sum id fst) (WorkspaceAuditor_audit circle 3 A (started circle)) =
          Some (Inr ?tree)"
    by code_simp
  from audit_result[OF this]
  obtain c' where run: "WorkspaceAuditor_audit circle 3 A (started circle) = Some (Inr (?tree, c'))" ..
  have inside: "?loop \<in> set (nodes ?tree)" by simp
  have marked: "loopsBackToParent ?loop = Some True" by simp
  have edge: "tryWorkspaceByDescriptor circle AB = Some B" "AB \<in> set [AB, BA]"
    by (simp_all add: circle_def example_def)
  have key: "relativeCwd circle A = ''packages/a''"
    by (simp add: circle_def example_def)
  note leaf = cycle_report_is_leaf[of circle 3 A "started circle" ?tree c' ?loop
      "[BuildInstruction C]" AB B "[AB, BA]" 1 A "[]" "started circle" ?parent]
  have "unrollWorkspaceReport ?loop [BuildInstruction C] = [BuildInstruction C]"
    using leaf run inside marked by blast
  moreover have "auditDependencies circle 1 A [AB] (started circle) [AB, BA] ?parent =
          Some (Inr (started circle, [AB, BA],
            WorkspaceReport A (Some True) (Some False) (Some True) (Some True) (Some True)
              [(''packages/a'', ?loop)]))"
    using leaf edge key by simp
  ultimately show ?thesis using run inside edge by blast
qed

subsection \<open>The walk ends\<close>

lemma auditDependencies_returns:
  assumes fin: "finite E"
    and closed: "\<And>d dw. d \<in> E \<Longrightarrow> tryWorkspaceByDescriptor world d = Some dw \<Longrightarrow>
                  set (dependencies_values world dw) \<subseteq> E"
    and callee: "\<And>ws c path report. set (dependencies_values world ws) \<subseteq> E \<Longrightarrow>
                  card (E - set path) < fuel \<Longrightarrow>
                  auditDependencyWorkspace world fuel ws c path report \<noteq> None"
  shows "set ds \<subseteq> E \<Longrightarrow> card (E - set path) \<le> fuel \<Longrightarrow>
         auditDependencies world fuel ws ds c path report \<noteq> None"
proof (induction ds arbitrary: c report)
  case Nil
  show ?case by simp
next
  case (Cons d rest)
  have rest: "auditDependencies world fuel ws rest c' path report' \<noteq> None" for c' report'
    using Cons by simp
  show ?case
  proof (cases "tryWorkspaceByDescriptor world d")
    case None
    then show ?thesis using rest by simp
  next
    case (Some dw)
    show ?thesis
    proof (cases "d \<in> set path")
      case True
      show ?thesis unfolding auditDependencies_cycle[OF Some True] by (rule rest)
    next
      case False
      have dE: "d \<in> E" using Cons.prems(1) by simp
      then have "E - set (path @ [d]) \<subset> E - set path" using False by auto
      then have "card (E - set (path @ [d])) < card (E - set path)"
        using fin by (simp add: psubset_card_mono)
      then have "card (E - set (path @ [d])) < fuel" using Cons.prems(2) by simp
      moreover have "set (dependencies_values world dw) \<subseteq> E" using closed[OF dE Some] .
      ultimately have "auditDependencyWorkspace world fuel dw c (path @ [d]) (childStart dw) \<noteq> None"
        by (rule callee[rotated])
      then obtain r where r: "auditDependencyWorkspace world fuel dw c (path @ [d]) (childStart dw) = Some r"
        by blast
      show ?thesis
      proof (cases r)
        case (Inl e)
        then show ?thesis using r Some False
          by (simp add: Let_def new_WorkspaceReport_def childStart_def)
      next
        case (Inr res)
        obtain b c1 path1 cr where res: "res = (b, c1, path1, cr)" by (cases res)
        obtain w i l dd f k m where cr: "cr = WorkspaceReport w i l dd f k m" by (cases cr)
        have 1: "auditDependencyWorkspace world fuel dw c (path @ [d]) (childStart dw) =
              Some (Inr (b, c1, path1, WorkspaceReport w i l dd f k m))"
          using r Inr res cr by simp
        have p: "path1 = path @ [d]" using audit_path[OF 1] .
        show ?thesis
        proof (cases "FreshnessCatalog_isFresh world dw c1")
          case (Inl e)
          then show ?thesis using 1 Some False
            by (simp add: Let_def new_WorkspaceReport_def childStart_def wasChecked_def)
        next
          case (Inr x)
          obtain f2 c2 where "x = (f2, c2)" by (cases x)
          with Inr have 2: "FreshnessCatalog_isFresh world dw c1 = Inr (f2, c2)" by simp
          show ?thesis
            unfolding auditDependencies_descend[OF Some False 1 2] p butlast_snoc by (rule rest)
        qed
      qed
    qed
  qed
qed

lemma auditDependencyWorkspace_returns:
  assumes fin: "finite E"
    and closed: "\<And>d dw. d \<in> E \<Longrightarrow> tryWorkspaceByDescriptor world d = Some dw \<Longrightarrow>
                  set (dependencies_values world dw) \<subseteq> E"
  shows "set (dependencies_values world ws) \<subseteq> E \<Longrightarrow> card (E - set path) < fuel \<Longrightarrow>
         auditDependencyWorkspace world fuel ws c path report \<noteq> None"
proof (induction fuel arbitrary: ws c path report)
  case 0
  then show ?case by simp
next
  case (Suc fuel)
  obtain w i l dd ff k m where r: "report = WorkspaceReport w i l dd ff k m" by (cases report)
  show ?case
  proof (cases "FreshnessCatalog_isFresh world ws c")
    case (Inl e)
    then show ?thesis by (simp add: Let_def wasChecked_def)
  next
    case (Inr x)
    obtain f c1 where "x = (f, c1)" by (cases x)
    with Inr have 1: "FreshnessCatalog_isFresh world ws c = Inr (f, c1)" by simp
    have le: "card (E - set path) \<le> fuel" using Suc.prems(2) by simp
    have "auditDependencies world fuel ws (dependencies_values world ws) c1 path
             (WorkspaceReport w (Some f) l (Some True) (Some f) (Some (catalog c ws \<noteq> None)) m) \<noteq> None"
    proof (rule auditDependencies_returns[where E = E])
      show "finite E" by (rule fin)
      show "set (dependencies_values world ws) \<subseteq> E" by (rule Suc.prems(1))
      show "card (E - set path) \<le> fuel" by (rule le)
      show "set (dependencies_values world dw) \<subseteq> E"
        if "d \<in> E" "tryWorkspaceByDescriptor world d = Some dw" for d dw
        using that by (rule closed)
      show "auditDependencyWorkspace world fuel ws' c' path' report' \<noteq> None"
        if "set (dependencies_values world ws') \<subseteq> E" "card (E - set path') < fuel"
        for ws' c' path' report'
        using that by (rule Suc.IH)
    qed
    then show ?thesis
      unfolding r auditDependencyWorkspace_Suc[OF 1] by (auto split: sum.splits)
  qed
qed

text \<open>
  Claim C7. When the descriptors that can be reached from a workspace form a finite set
  \<open>E\<close>, the audit of that workspace ends, cycles or not: with more fuel than \<open>E\<close> has
  elements it returns a report or raises. A descriptor that is on the path is never
  followed again: the loop stores a child marked \<open>loopsBackToParent = true\<close> for it and goes
  on. In \<open>circle\<close> the audit of \<open>A\<close> goes from \<open>A\<close> to \<open>B\<close>, back to \<open>A\<close>, and stops
  at the edge to \<open>B\<close> it has already taken.
\<close>

theorem audit_terminates:
  assumes "finite E"
    and "\<forall>d \<in> E. \<forall>dw. tryWorkspaceByDescriptor world d = Some dw \<longrightarrow>
           set (dependencies_values world dw) \<subseteq> E"
    and "set (dependencies_values world ws) \<subseteq> E"
    and "card E < fuel"
  shows "(\<exists>result. WorkspaceAuditor_audit world fuel ws c = Some result) \<and>
         (\<forall>d dw n ws' rest c1 path parent.
            tryWorkspaceByDescriptor world d = Some dw \<and> d \<in> set path \<longrightarrow>
            auditDependencies world n ws' (d # rest) c1 path parent =
              auditDependencies world n ws' rest c1 path
                (dependencies_set (relativeCwd world ws')
                   (set_loopsBackToParent (Some True) (new_WorkspaceReport dw)) parent))"
proof
  have "card (E - set []) < fuel" using assms(4) by simp
  then have "auditDependencyWorkspace world fuel ws c [] (new_WorkspaceReport ws) \<noteq> None"
    using auditDependencyWorkspace_returns[of E world ws "[]" fuel c "new_WorkspaceReport ws"]
      assms(1,2,3) by blast
  then show "\<exists>result. WorkspaceAuditor_audit world fuel ws c = Some result"
    by (auto simp: WorkspaceAuditor_audit_def Let_def split: option.splits sum.splits)
next
  show "\<forall>d dw n ws' rest c1 path parent.
            tryWorkspaceByDescriptor world d = Some dw \<and> d \<in> set path \<longrightarrow>
            auditDependencies world n ws' (d # rest) c1 path parent =
              auditDependencies world n ws' rest c1 path
                (dependencies_set (relativeCwd world ws')
                   (set_loopsBackToParent (Some True) (new_WorkspaceReport dw)) parent)"
    by (simp add: Let_def)
qed

theorem audit_terminates_witness:
  "finite {AB, BA} \<and> card {AB, BA} < (3::nat) \<and>
   set (dependencies_values circle A) \<subseteq> {AB, BA} \<and>
   (\<exists>result. WorkspaceAuditor_audit circle 3 A (started circle) = Some result) \<and>
   map_option (map_sum id fst) (WorkspaceAuditor_audit circle 3 A (started circle)) =
     Some (Inr (WorkspaceReport A (Some True) None (Some True) (Some True) (Some False)
       [(''packages/a'',
         WorkspaceReport B (Some True) (Some False) (Some True) (Some True) (Some True)
           [(''packages/b'',
             WorkspaceReport A (Some True) (Some False) (Some True) (Some True) (Some True)
               [(''packages/a'', WorkspaceReport B None (Some True) None None None [])])])])) \<and>
   tryWorkspaceByDescriptor circle BA = Some A \<and> BA \<in> set [AB, BA] \<and>
   auditDependencies circle 0 B [BA] (started circle) [AB, BA] (new_WorkspaceReport B) =
     Some (Inr (started circle, [AB, BA],
       WorkspaceReport B None None None None None
         [(''packages/b'', WorkspaceReport A None (Some True) None None None [])]))"
proof -
  have fin: "finite {AB, BA}" by simp
  have closed: "\<forall>d \<in> {AB, BA}. \<forall>dw. tryWorkspaceByDescriptor circle d = Some dw \<longrightarrow>
           set (dependencies_values circle dw) \<subseteq> {AB, BA}"
    by (simp add: circle_def example_def)
  have start: "set (dependencies_values circle A) \<subseteq> {AB, BA}"
    by (simp add: circle_def example_def)
  have enough: "card {AB, BA} < (3::nat)" by simp
  have edge: "tryWorkspaceByDescriptor circle BA = Some A" "BA \<in> set [AB, BA]"
    by (simp_all add: circle_def example_def)
  have key: "relativeCwd circle B = ''packages/b''"
    by (simp add: circle_def example_def)
  have tree: "map_option (map_sum id fst) (WorkspaceAuditor_audit circle 3 A (started circle)) =
     Some (Inr (WorkspaceReport A (Some True) None (Some True) (Some True) (Some False)
       [(''packages/a'',
         WorkspaceReport B (Some True) (Some False) (Some True) (Some True) (Some True)
           [(''packages/b'',
             WorkspaceReport A (Some True) (Some False) (Some True) (Some True) (Some True)
               [(''packages/a'', WorkspaceReport B None (Some True) None None None [])])])]))"
    by code_simp
  note ends = audit_terminates[OF fin closed start enough, of "started circle"]
  have "\<exists>result. WorkspaceAuditor_audit circle 3 A (started circle) = Some result"
    using ends by blast
  moreover have "auditDependencies circle 0 B [BA] (started circle) [AB, BA] (new_WorkspaceReport B) =
     Some (Inr (started circle, [AB, BA],
       WorkspaceReport B None None None None None
         [(''packages/b'', WorkspaceReport A None (Some True) None None None [])]))"
  proof -
    have "auditDependencies circle 0 B (BA # []) (started circle) [AB, BA] (new_WorkspaceReport B) =
        auditDependencies circle 0 B [] (started circle) [AB, BA]
          (dependencies_set (relativeCwd circle B)
             (set_loopsBackToParent (Some True) (new_WorkspaceReport A)) (new_WorkspaceReport B))"
      using ends edge by blast
    then show ?thesis by (simp add: key new_WorkspaceReport_def)
  qed
  ultimately show ?thesis using fin enough start tree edge by blast
qed

subsection \<open>What the map of child reports holds\<close>

text \<open>
  Claim C1. A report is to hold one child report for each dependency that is a workspace
  of the project. The code stores every child under the key \<open>workspace.relativeCwd\<close> of
  the workspace being audited, so each child replaces the one before: in \<open>diamond\<close>,
  \<open>A\<close> has the two dependencies \<open>B\<close> and \<open>C\<close>, and its report holds the report of
  \<open>C\<close> alone, under the key of \<open>A\<close>.
\<close>

theorem dependencies_holds_one_report:
  "set (dependencies_values diamond A) = {AB, AC} \<and>
   tryWorkspaceByDescriptor diamond AB = Some B \<and>
   tryWorkspaceByDescriptor diamond AC = Some C \<and>
   (\<exists>c'. WorkspaceAuditor_audit diamond 2 A (started diamond) =
      Some (Inr (WorkspaceReport A (Some False) None (Some False) (Some True) (Some False)
                   [(''packages/a'',
                     WorkspaceReport C (Some True) (Some False) (Some True) (Some True)
                       (Some True) [])], c')))"
proof -
  have "map_option (map_sum id fst) (WorkspaceAuditor_audit diamond 2 A (started diamond)) =
      Some (Inr (WorkspaceReport A (Some False) None (Some False) (Some True) (Some False)
                   [(''packages/a'',
                     WorkspaceReport C (Some True) (Some False) (Some True) (Some True)
                       (Some True) [])]))"
    by code_simp
  from audit_result[OF this] show ?thesis
    by (simp add: diamond_def example_def)
qed

text \<open>
  Claim C3. \<open>dependenciesWereFresh\<close> of a report is to say whether the dependencies of
  its workspace were fresh. For a nested report the code overwrites the field with the
  verdict of the whole subtree, own files included: in \<open>chain\<close>, \<open>B\<close> has no
  dependencies and a changed file, and its report ends with
  \<open>dependenciesWereFresh = false\<close>.
\<close>

theorem nested_dependenciesWereFresh_is_overall:
  "dependencies_values chain B = [] \<and>
   (\<exists>c'. WorkspaceAuditor_audit chain 2 A (started chain) =
      Some (Inr (WorkspaceReport A (Some False) None (Some False) (Some True) (Some False)
                   [(''packages/a'',
                     WorkspaceReport B (Some False) (Some False) (Some False) (Some False)
                       (Some True) [])], c')))"
proof -
  have "map_option (map_sum id fst) (WorkspaceAuditor_audit chain 2 A (started chain)) =
      Some (Inr (WorkspaceReport A (Some False) None (Some False) (Some True) (Some False)
                   [(''packages/a'',
                     WorkspaceReport B (Some False) (Some False) (Some False) (Some False)
                       (Some True) [])]))"
    by code_simp
  from audit_result[OF this] show ?thesis
    by (simp add: chain_def example_def)
qed

section \<open>ProjectAuditor: the workspaces that get a report\<close>





subsection \<open>An audit as a task\<close>








lemma stuck_free_answer:
  "stuck_free (k True) \<Longrightarrow> stuck_free (k False) \<Longrightarrow> stuck_free (k answer)"
  by (cases answer) simp_all









subsection \<open>Audits that take turns come to an end\<close>









subsection \<open>The two loops of the method\<close>


















section \<open>The catalog under the two schedules\<close>








section \<open>ReportInspector: from reports to build instructions\<close>

lemma unroll_append_all:
  fixes r :: "'w WorkspaceReport" and deps :: "(string \<times> 'w WorkspaceReport) list"
    and acc acc' :: "'w BuildInstruction list"
  shows "\<forall>ins. unrollWorkspaceReport r ins = ins @ unrollWorkspaceReport r []"
    and "\<forall>ins. unrollDependencies deps ins = ins @ unrollDependencies deps []"
proof (induction r acc and deps acc' rule: unrollWorkspaceReport_unrollDependencies.induct)
  case (1 ws i l d f c deps instructions)
  show ?case
  proof (cases "\<not> truthy l \<and> \<not> truthy i \<and> \<not> truthy d")
    case True
    then have "\<forall>ins. unrollDependencies deps ins = ins @ unrollDependencies deps []"
      using 1 by blast
    then have a: "\<And>ins. unrollDependencies deps ins = ins @ unrollDependencies deps []"
      by blast
    show ?thesis
      using True a[of "instructions @ [BuildInstruction ws]" for instructions]
        a[of "[BuildInstruction ws]"] by simp
  next
    case False
    then show ?thesis by auto
  qed
next
  case (2 instructions)
  show ?case by simp
next
  case (3 dependency dependencyReport deps instructions)
  have a: "\<And>ins. unrollWorkspaceReport dependencyReport ins = ins @ unrollWorkspaceReport dependencyReport []"
    using 3 by blast
  have b: "\<And>ins. unrollDependencies deps ins = ins @ unrollDependencies deps []"
    using 3 by blast
  show ?case
  proof
    fix ins
    have "unrollDependencies ((dependency, dependencyReport) # deps) ins =
        unrollWorkspaceReport dependencyReport ins @ unrollDependencies deps []"
      using b[of "unrollWorkspaceReport dependencyReport ins"] by simp
    also have "\<dots> = ins @ unrollWorkspaceReport dependencyReport [] @ unrollDependencies deps []"
      using a[of ins] by simp
    also have "\<dots> = ins @ unrollDependencies ((dependency, dependencyReport) # deps) []"
      using b[of "unrollWorkspaceReport dependencyReport []"] by simp
    finally show "unrollDependencies ((dependency, dependencyReport) # deps) ins =
        ins @ unrollDependencies ((dependency, dependencyReport) # deps) []" .
  qed
qed

lemma unrollDependencies_concat:
  "unrollDependencies deps ins =
     ins @ concat (map (\<lambda>(dependency, dependencyReport). unrollWorkspaceReport dependencyReport []) deps)"
proof (induction deps arbitrary: ins)
  case Nil
  show ?case by simp
next
  case (Cons p deps)
  obtain k r where p: "p = (k, r)" by (cases p)
  have "unrollWorkspaceReport r ins = ins @ unrollWorkspaceReport r []"
    using unroll_append_all(1) by blast
  then show ?case using Cons[of "unrollWorkspaceReport r ins"] by (simp add: p)
qed

text \<open>
  Claim C6. What \<open>_unrollWorkspaceReport\<close> does at a report: nothing when
  \<open>loopsBackToParent\<close> is true; else nothing when \<open>isFresh\<close> is true; else, when
  \<open>dependenciesWereFresh\<close> is not true, one instruction for the workspace of the report,
  followed by what the unrolling of each child report in \<open>dependencies\<close> gives, in the
  order of the map; else, when \<open>filesWereFresh\<close> is not true, one instruction and nothing
  more. The fifth line completes the case distinction: a report that is not fresh although
  both its dependencies and its files are gives nothing. No report of an audit is of that
  kind, since there \<open>isFresh\<close> is the conjunction of the two (claim C4).
\<close>

theorem unrollWorkspaceReport_policy:
  "(truthy (loopsBackToParent r) \<longrightarrow> unrollWorkspaceReport r ins = ins) \<and>
   (\<not> truthy (loopsBackToParent r) \<and> truthy (isFresh r) \<longrightarrow> unrollWorkspaceReport r ins = ins) \<and>
   (\<not> truthy (loopsBackToParent r) \<and> \<not> truthy (isFresh r) \<and> \<not> truthy (dependenciesWereFresh r) \<longrightarrow>
      unrollWorkspaceReport r ins =
        ins @ [BuildInstruction (workspace r)] @
        concat (map (\<lambda>(dependency, dependencyReport). unrollWorkspaceReport dependencyReport [])
                  (dependencies r))) \<and>
   (\<not> truthy (loopsBackToParent r) \<and> \<not> truthy (isFresh r) \<and> truthy (dependenciesWereFresh r) \<and>
    \<not> truthy (filesWereFresh r) \<longrightarrow>
      unrollWorkspaceReport r ins = ins @ [BuildInstruction (workspace r)]) \<and>
   (\<not> truthy (loopsBackToParent r) \<and> \<not> truthy (isFresh r) \<and> truthy (dependenciesWereFresh r) \<and>
    truthy (filesWereFresh r) \<longrightarrow>
      unrollWorkspaceReport r ins = ins)"
  by (cases r) (simp add: unrollDependencies_concat)

theorem unrollWorkspaceReport_policy_witness:
  "unrollWorkspaceReport (WorkspaceReport B None (Some True) None None None []) [BuildInstruction A] =
     [BuildInstruction A] \<and>
   unrollWorkspaceReport
     (WorkspaceReport C (Some True) (Some False) (Some True) (Some True) (Some True) [])
     [BuildInstruction A] = [BuildInstruction A] \<and>
   unrollWorkspaceReport
     (WorkspaceReport A (Some False) None (Some False) (Some True) (Some False)
        [(''packages/a'',
          WorkspaceReport B (Some False) (Some False) (Some True) (Some False) (Some True) [])])
     [] = [BuildInstruction A, BuildInstruction B] \<and>
   unrollWorkspaceReport
     (WorkspaceReport B (Some False) (Some False) (Some True) (Some False) (Some True) [])
     [BuildInstruction A] = [BuildInstruction A, BuildInstruction B] \<and>
   unrollWorkspaceReport
     (WorkspaceReport B (Some False) (Some False) (Some True) (Some True) (Some True) [])
     [BuildInstruction A] = [BuildInstruction A]"
  using
    unrollWorkspaceReport_policy[of "WorkspaceReport B None (Some True) None None None []"
      "[BuildInstruction A]"]
    unrollWorkspaceReport_policy[of
      "WorkspaceReport C (Some True) (Some False) (Some True) (Some True) (Some True) []"
      "[BuildInstruction A]"]
    unrollWorkspaceReport_policy[of
      "WorkspaceReport A (Some False) None (Some False) (Some True) (Some False)
        [(''packages/a'',
          WorkspaceReport B (Some False) (Some False) (Some True) (Some False) (Some True) [])]"
      "[]"]
    unrollWorkspaceReport_policy[of
      "WorkspaceReport B (Some False) (Some False) (Some True) (Some False) (Some True) []"
      "[BuildInstruction A]"]
    unrollWorkspaceReport_policy[of
      "WorkspaceReport B (Some False) (Some False) (Some True) (Some True) (Some True) []"
      "[BuildInstruction A]"]
  by (simp add: truthy_def)

text \<open>
  Claim C2. \<open>A\<close> depends on \<open>B\<close> and \<open>C\<close>, the files of \<open>B\<close> have changed, those of
  \<open>A\<close> and \<open>C\<close> have not, and \<open>A\<close> is the target. The instructions are to name \<open>A\<close>
  and then \<open>B\<close>. The report of \<open>A\<close> holds only the report of \<open>C\<close>, stored last,
  so the inspector never sees the report of \<open>B\<close>: the instructions name \<open>A\<close> alone.
\<close>

theorem diamond_unroll_skips_stale_dependency:
  "ProjectAuditor_audit diamond [''packages/a''] 2 =
     Some (Inr [(A, WorkspaceReport A (Some False) None (Some False) (Some True) (Some False)
                     [(''packages/a'',
                       WorkspaceReport C (Some True) (Some False) (Some True) (Some True)
                         (Some True) [])])]) \<and>
   unroll [(A, WorkspaceReport A (Some False) None (Some False) (Some True) (Some False)
                 [(''packages/a'',
                   WorkspaceReport C (Some True) (Some False) (Some True) (Some True)
                     (Some True) [])])] =
     [BuildInstruction A]"
  by code_simp

end
